theory Spec2Isabelle
  imports Main
begin

section \<open>Errors\<close>

text \<open>
  Every exception that the query-graph code of \<^verbatim>\<open>weaveio/parser.py\<close>, the parse-tree
  code of \<^verbatim>\<open>weaveio/readquery/parse_tree.py\<close> or the graph library underneath them can raise
  is a value. The two \<^verbatim>\<open>NetworkXUnfeasible\<close> sites (the
  compiler's own fatal check and the library's cycle detection) and the \<^verbatim>\<open>ValueError\<close>
  keep their message, so that they stay distinguishable.
\<close>

datatype error =
    KeyError
  | IndexError
  | ValueError string
  | NetworkXError
  | NodeNotFound
  | NetworkXNoPath
  | NetworkXUnfeasible string
  | RuntimeError
  | TypeError
  | NameError

section \<open>The attributed directed graph\<close>

text \<open>
  Node keys are the label strings built by \<^verbatim>\<open>make_node\<close>. An edge's attribute dictionary
  only ever holds the keys \<^verbatim>\<open>type\<close>, \<^verbatim>\<open>label\<close>, \<^verbatim>\<open>operation\<close> and \<^verbatim>\<open>style\<close>;
  an absent key is \<open>None\<close>.
\<close>

type_synonym node = string

record edge_data =
  e_type :: "string option"
  e_label :: "string option"
  e_operation :: "string option"
  e_style :: "string option"

definition no_attrs :: edge_data where
  "no_attrs = \<lparr>e_type = None, e_label = None, e_operation = None, e_style = None\<rparr>"

definition overlay :: "'a option \<Rightarrow> 'a option \<Rightarrow> 'a option" where
  "overlay old new = (case new of None \<Rightarrow> old | Some x \<Rightarrow> Some x)"

text \<open>\<^verbatim>\<open>datadict.update(attr)\<close>: the keys given win, the others stay.\<close>

definition update_attrs :: "edge_data \<Rightarrow> edge_data \<Rightarrow> edge_data" where
  "update_attrs old new =
     \<lparr>e_type = overlay (e_type old) (e_type new),
      e_label = overlay (e_label old) (e_label new),
      e_operation = overlay (e_operation old) (e_operation new),
      e_style = overlay (e_style old) (e_style new)\<rparr>"

text \<open>
  The \<^verbatim>\<open>subgraph\<close> attribute of a node is itself a small directed graph over entity
  names, without attributes.
\<close>

record name_graph =
  ng_nodes :: "string list"
  ng_edges :: "(string \<times> string) list"

record node_data =
  n_subgraph :: name_graph
  n_scalars :: "string list"
  n_name :: string
  n_i :: nat

text \<open>
  A \<^verbatim>\<open>DiGraph\<close> keeps its nodes and, per node, its successors and predecessors in
  insertion-ordered dictionaries. One edge list in insertion order carries the same
  information: restricted to one source it is that node's successor dictionary,
  restricted to one target it is the predecessor dictionary. A node that came into being
  only as the endpoint of an edge has no attributes (\<open>None\<close>).
\<close>

record graph =
  g_nodes :: "(node \<times> node_data option) list"
  g_edges :: "((node \<times> node) \<times> edge_data) list"

definition empty_graph :: graph where
  "empty_graph = \<lparr>g_nodes = [], g_edges = []\<rparr>"

definition node_keys :: "graph \<Rightarrow> node list" where
  "node_keys g = map fst (g_nodes g)"

definition edge_keys :: "graph \<Rightarrow> (node \<times> node) list" where
  "edge_keys g = map fst (g_edges g)"

definition has_node :: "graph \<Rightarrow> node \<Rightarrow> bool" where
  "has_node g n = (n \<in> set (node_keys g))"

definition has_edge :: "graph \<Rightarrow> node \<Rightarrow> node \<Rightarrow> bool" where
  "has_edge g u v = ((u, v) \<in> set (edge_keys g))"

definition number_of_nodes :: "graph \<Rightarrow> nat" where
  "number_of_nodes g = length (g_nodes g)"

text \<open>\<^verbatim>\<open>graph.nodes[n][attr]\<close>: a \<^verbatim>\<open>KeyError\<close> when the node or the attribute is missing.\<close>

definition node_attrs :: "graph \<Rightarrow> node \<Rightarrow> error + node_data" where
  "node_attrs g n =
     (case map_of (g_nodes g) n of Some (Some d) \<Rightarrow> Inr d | _ \<Rightarrow> Inl KeyError)"

text \<open>\<^verbatim>\<open>graph.edges[(u, v)]\<close>.\<close>

definition edge_attrs :: "graph \<Rightarrow> node \<Rightarrow> node \<Rightarrow> error + edge_data" where
  "edge_attrs g u v =
     (case map_of (g_edges g) (u, v) of Some d \<Rightarrow> Inr d | None \<Rightarrow> Inl KeyError)"

definition add_node :: "graph \<Rightarrow> node \<Rightarrow> node_data \<Rightarrow> graph" where
  "add_node g n d =
     (if has_node g n
      then g\<lparr>g_nodes := map (\<lambda>(k, a). if k = n then (k, Some d) else (k, a)) (g_nodes g)\<rparr>
      else g\<lparr>g_nodes := g_nodes g @ [(n, Some d)]\<rparr>)"

text \<open>\<^verbatim>\<open>add_edge\<close> creates a missing endpoint, without attributes.\<close>

definition touch_node :: "graph \<Rightarrow> node \<Rightarrow> graph" where
  "touch_node g n = (if has_node g n then g else g\<lparr>g_nodes := g_nodes g @ [(n, None)]\<rparr>)"

definition add_edge :: "graph \<Rightarrow> node \<Rightarrow> node \<Rightarrow> edge_data \<Rightarrow> graph" where
  "add_edge g u v attrs =
     (let g1 = touch_node (touch_node g u) v in
      if has_edge g1 u v
      then g1\<lparr>g_edges :=
              map (\<lambda>(k, d). if k = (u, v) then (k, update_attrs d attrs) else (k, d)) (g_edges g1)\<rparr>
      else g1\<lparr>g_edges := g_edges g1 @ [((u, v), attrs)]\<rparr>)"

definition remove_edge :: "graph \<Rightarrow> node \<Rightarrow> node \<Rightarrow> error + graph" where
  "remove_edge g u v =
     (if has_edge g u v
      then Inr (g\<lparr>g_edges := filter (\<lambda>(k, d). k \<noteq> (u, v)) (g_edges g)\<rparr>)
      else Inl NetworkXError)"

definition remove_node :: "graph \<Rightarrow> node \<Rightarrow> error + graph" where
  "remove_node g n =
     (if has_node g n
      then Inr \<lparr>g_nodes = filter (\<lambda>(k, a). k \<noteq> n) (g_nodes g),
                g_edges = filter (\<lambda>((u, v), d). u \<noteq> n \<and> v \<noteq> n) (g_edges g)\<rparr>
      else Inl NetworkXError)"

definition succ_list :: "graph \<Rightarrow> node \<Rightarrow> node list" where
  "succ_list g n = map (snd \<circ> fst) (filter (\<lambda>((u, v), d). u = n) (g_edges g))"

definition pred_list :: "graph \<Rightarrow> node \<Rightarrow> node list" where
  "pred_list g n = map (fst \<circ> fst) (filter (\<lambda>((u, v), d). v = n) (g_edges g))"

definition successors :: "graph \<Rightarrow> node \<Rightarrow> error + node list" where
  "successors g n = (if has_node g n then Inr (succ_list g n) else Inl NetworkXError)"

definition predecessors :: "graph \<Rightarrow> node \<Rightarrow> error + node list" where
  "predecessors g n = (if has_node g n then Inr (pred_list g n) else Inl NetworkXError)"

text \<open>
  \<^verbatim>\<open>nbunch_iter\<close>: an argument that is a node stands for itself; any other string is
  read as a sequence of one-character node names, of which those in the graph count.
\<close>

definition nbunch_iter :: "graph \<Rightarrow> node \<Rightarrow> node list" where
  "nbunch_iter g nb =
     (if has_node g nb then [nb] else filter (has_node g) (map (\<lambda>c. [c]) nb))"


definition in_edges :: "graph \<Rightarrow> node \<Rightarrow> ((node \<times> node) \<times> edge_data) list" where
  "in_edges g nb =
     concat (map (\<lambda>n. filter (\<lambda>((u, v), d). v = n) (g_edges g)) (nbunch_iter g nb))"

text \<open>
  Iterating \<^verbatim>\<open>graph.edges\<close> goes node by node, and \<^verbatim>\<open>copy()\<close> inserts the edges in
  that order into the new graph, with a fresh attribute dictionary for each.
\<close>

definition edges_iter :: "graph \<Rightarrow> ((node \<times> node) \<times> edge_data) list" where
  "edges_iter g =
     concat (map (\<lambda>n. filter (\<lambda>((u, v), d). u = n) (g_edges g)) (node_keys g))"

definition copy :: "graph \<Rightarrow> graph" where
  "copy g = \<lparr>g_nodes = g_nodes g, g_edges = edges_iter g\<rparr>"

section \<open>Node labels\<close>

text \<open>The decimal rendering of \<^verbatim>\<open>f'{i}'\<close>.\<close>

definition digit_char :: "nat \<Rightarrow> char" where
  "digit_char d = ''0123456789'' ! d"

fun str_nat :: "nat \<Rightarrow> string" where
  "str_nat n = (if n < 10 then [digit_char n] else str_nat (n div 10) @ [digit_char (n mod 10)])"

declare str_nat.simps [simp del]

fun intercalate :: "string \<Rightarrow> string list \<Rightarrow> string" where
  "intercalate sep [] = []"
| "intercalate sep [x] = x"
| "intercalate sep (x # y # ys) = x @ sep @ intercalate sep (y # ys)"

definition ng_add_node :: "name_graph \<Rightarrow> string \<Rightarrow> name_graph" where
  "ng_add_node g n = (if n \<in> set (ng_nodes g) then g else g\<lparr>ng_nodes := ng_nodes g @ [n]\<rparr>)"

definition ng_add_edge :: "name_graph \<Rightarrow> string \<Rightarrow> string \<Rightarrow> name_graph" where
  "ng_add_edge g a b =
     (let g1 = ng_add_node (ng_add_node g a) b in
      if (a, b) \<in> set (ng_edges g1) then g1 else g1\<lparr>ng_edges := ng_edges g1 @ [(a, b)]\<rparr>)"

definition ng_succ :: "name_graph \<Rightarrow> string \<Rightarrow> string list" where
  "ng_succ g n = map snd (filter (\<lambda>(a, b). a = n) (ng_edges g))"

text \<open>
  \<^verbatim>\<open>dfs_tree(graph, source)\<close> lists the nodes in depth-first preorder. The pending nodes are
  kept on a stack and tested against the visited ones when they are taken off, which is
  the moment the library's iterator reaches them.
\<close>

function dfs_preorder :: "name_graph \<Rightarrow> string list \<Rightarrow> string list \<Rightarrow> string list" where
  "dfs_preorder g [] visited = visited"
| "dfs_preorder g (x # stack) visited =
     (if x \<in> set visited \<or> x \<notin> set (ng_nodes g) then dfs_preorder g stack visited
      else dfs_preorder g (ng_succ g x @ stack) (visited @ [x]))"
  by pat_completeness auto
termination
proof (relation "measures [\<lambda>(g, stack, visited). card (set (ng_nodes g) - set visited),
                          \<lambda>(g, stack, visited). length stack]")
  show "wf (measures [\<lambda>(g, stack, visited). card (set (ng_nodes g) - set visited),
                      \<lambda>(g, stack, visited). length stack])"
    by simp
next
  fix g :: name_graph and x :: string and stack visited :: "string list"
  assume "x \<in> set visited \<or> x \<notin> set (ng_nodes g)"
  then show "((g, stack, visited), (g, x # stack, visited))
        \<in> measures [\<lambda>(g, stack, visited). card (set (ng_nodes g) - set visited),
                    \<lambda>(g, stack, visited). length stack]"
    by simp
next
  fix g :: name_graph and x :: string and stack visited :: "string list"
  assume a: "\<not> (x \<in> set visited \<or> x \<notin> set (ng_nodes g))"
  have "set (ng_nodes g) - set (visited @ [x]) \<subset> set (ng_nodes g) - set visited"
    using a by auto
  then have "card (set (ng_nodes g) - set (visited @ [x])) < card (set (ng_nodes g) - set visited)"
    by (simp add: psubset_card_mono)
  then show "((g, ng_succ g x @ stack, visited @ [x]), (g, x # stack, visited))
        \<in> measures [\<lambda>(g, stack, visited). card (set (ng_nodes g) - set visited),
                    \<lambda>(g, stack, visited). length stack]"
    by simp
qed

text \<open>
  \<^verbatim>\<open>graph2string\<close> joins the preorder of every source with \<^verbatim>\<open>->\<close> and the sources with
  commas. The source collects the sources in a Python set; here they are taken in node
  order (a subgraph grown by traversals from the start node has one source).
\<close>

definition graph2string :: "name_graph \<Rightarrow> string" where
  "graph2string g =
     (let sources = filter (\<lambda>n. \<not> (\<exists>e \<in> set (ng_edges g). snd e = n)) (ng_nodes g)
      in intercalate '','' (map (\<lambda>s. intercalate ''->'' (dfs_preorder g [s] [])) sources))"

section \<open>The graph builder\<close>

definition make_label :: "graph \<Rightarrow> string \<Rightarrow> name_graph \<Rightarrow> node" where
  "make_label g label subgraph =
     str_nat (number_of_nodes g) @ [CHR 0x0A]
       @ (case node_attrs g label of Inr d \<Rightarrow> n_name d | Inl e \<Rightarrow> label)
       @ [CHR 0x0A] @ graph2string subgraph"

text \<open>
  \<^verbatim>\<open>make_node\<close>; the keyword arguments beyond type, label and operation that reach the edge
  can only be \<^verbatim>\<open>style\<close>.
\<close>

definition make_node ::
  "graph \<Rightarrow> node option \<Rightarrow> name_graph \<Rightarrow> string list \<Rightarrow> string \<Rightarrow> string \<Rightarrow> string
     \<Rightarrow> string option \<Rightarrow> graph \<times> node" where
  "make_node g parent subgraph scalars label ty operation style =
     (let i = number_of_nodes g;
          lbl = make_label g label subgraph;
          g1 = add_node g lbl \<lparr>n_subgraph = subgraph, n_scalars = scalars, n_name = label, n_i = i\<rparr>
      in case parent of
           None \<Rightarrow> (g1, lbl)
         | Some p \<Rightarrow>
             (add_edge g1 p lbl
                \<lparr>e_type = Some ty, e_label = Some (ty @ ''-'' @ operation),
                 e_operation = Some operation, e_style = style\<rparr>, lbl))"

definition add_start :: "graph \<Rightarrow> string \<Rightarrow> graph \<times> node" where
  "add_start g name =
     make_node g None \<lparr>ng_nodes = [name], ng_edges = []\<rparr> [] name '''' '''' None"

text \<open>
  The rendering of a list of entity names inside the traversal's query text (the
  escapes Python's \<^verbatim>\<open>repr\<close> adds for quotes and control characters are left out; the text is
  an opaque template for everything that follows).
\<close>

definition repr_list :: "string list \<Rightarrow> string" where
  "repr_list xs = ''['' @ intercalate '', '' (map (\<lambda>s. [CHR 0x27] @ s @ [CHR 0x27]) xs) @ '']''"

definition add_traversal :: "graph \<Rightarrow> node \<Rightarrow> string list \<Rightarrow> error + graph \<times> node" where
  "add_traversal g parent path =
     (case node_attrs g parent of
        Inl e \<Rightarrow> Inl e
      | Inr pd \<Rightarrow>
          (case path of
             [] \<Rightarrow> Inl IndexError
           | p0 # ps \<Rightarrow>
               (let subgraph0 = ng_add_edge (n_subgraph pd) (n_name pd) p0;
                    subgraph = foldl (\<lambda>s (a, b). ng_add_edge s a b) subgraph0 (zip (butlast path) (tl path))
                in Inr (make_node g (Some parent) subgraph [] (last path) ''traversal''
                          (''OPTIONAL MATCH '' @ repr_list path) None))))"

definition add_filter :: "graph \<Rightarrow> node \<Rightarrow> node list \<Rightarrow> string \<Rightarrow> error + graph \<times> node" where
  "add_filter g parent dependencies operation =
     (case node_attrs g parent of
        Inl e \<Rightarrow> Inl e
      | Inr pd \<Rightarrow>
          (let (g1, n) = make_node g (Some parent) (n_subgraph pd) [] (n_name pd) ''filter''
                           (''WHERE '' @ operation) None
           in Inr (foldl (\<lambda>h d. add_edge h d n (no_attrs\<lparr>e_type := Some ''dep''\<rparr>)) g1 dependencies, n)))"

definition add_aggregation ::
  "graph \<Rightarrow> node \<Rightarrow> node \<Rightarrow> string \<Rightarrow> string \<Rightarrow> error + graph \<times> node" where
  "add_aggregation g parent wrt operation ty =
     (case node_attrs g wrt of
        Inl e \<Rightarrow> Inl e
      | Inr wd \<Rightarrow>
          (case node_attrs g parent of
             Inl e \<Rightarrow> Inl e
           | Inr pd \<Rightarrow>
               (let (g1, n) = make_node g (Some parent) (n_subgraph wd) (n_scalars pd @ [operation])
                                operation ty operation None
                in Inr (add_edge g1 n wrt (no_attrs\<lparr>e_type := Some ''wrt'', e_style := Some ''dashed''\<rparr>), n))))"

definition add_operation :: "graph \<Rightarrow> node \<Rightarrow> node list \<Rightarrow> string \<Rightarrow> error + graph \<times> node" where
  "add_operation g parent dependencies operation =
     (case node_attrs g parent of
        Inl e \<Rightarrow> Inl e
      | Inr pd \<Rightarrow>
          (let (g1, n) = make_node g (Some parent) (n_subgraph pd) (n_scalars pd @ [operation])
                           operation ''operation'' (''WITH *, '' @ operation @ '' as ...'') None
           in Inr (foldl (\<lambda>h d. add_edge h d n no_attrs) g1 dependencies, n)))"

subsection \<open>The \<^verbatim>\<open>QueryGraph\<close> class\<close>

record query_graph =
  qG :: graph
  qstart :: node

definition new_query_graph :: query_graph where
  "new_query_graph = (let (g, s) = add_start empty_graph ''data'' in \<lparr>qG = g, qstart = s\<rparr>)"

definition qg_add_traversal ::
  "query_graph \<Rightarrow> string list \<Rightarrow> node option \<Rightarrow> error + query_graph \<times> node" where
  "qg_add_traversal q path parent =
     (case add_traversal (qG q) (case parent of None \<Rightarrow> qstart q | Some p \<Rightarrow> p) path of
        Inl e \<Rightarrow> Inl e | Inr (g, n) \<Rightarrow> Inr (q\<lparr>qG := g\<rparr>, n))"

definition qg_add_operation ::
  "query_graph \<Rightarrow> node \<Rightarrow> node list \<Rightarrow> string \<Rightarrow> error + query_graph \<times> node" where
  "qg_add_operation q parent dependencies operation =
     (case add_operation (qG q) parent dependencies operation of
        Inl e \<Rightarrow> Inl e | Inr (g, n) \<Rightarrow> Inr (q\<lparr>qG := g\<rparr>, n))"

definition qg_add_aggregation ::
  "query_graph \<Rightarrow> node \<Rightarrow> node \<Rightarrow> string \<Rightarrow> error + query_graph \<times> node" where
  "qg_add_aggregation q parent wrt operation =
     (case add_aggregation (qG q) parent wrt operation ''aggr'' of
        Inl e \<Rightarrow> Inl e | Inr (g, n) \<Rightarrow> Inr (q\<lparr>qG := g\<rparr>, n))"

definition qg_add_filter ::
  "query_graph \<Rightarrow> node \<Rightarrow> node list \<Rightarrow> string \<Rightarrow> error + query_graph \<times> node" where
  "qg_add_filter q parent dependencies operation =
     (case add_filter (qG q) parent dependencies operation of
        Inl e \<Rightarrow> Inl e | Inr (g, n) \<Rightarrow> Inr (q\<lparr>qG := g\<rparr>, n))"

section \<open>Ordering branches\<close>

text \<open>
  \<^verbatim>\<open>compare_two_dags\<close>, the comparison handed to \<^verbatim>\<open>cmp_to_key\<close>: its arguments are two
  branches (lists of node labels).
\<close>

definition compare_two_dags :: "node list \<Rightarrow> node list \<Rightarrow> int" where
  "compare_two_dags dag1 dag2 =
     (if list_ex (\<lambda>n. n \<in> set dag2) dag1 then 1
      else if list_ex (\<lambda>n. n \<in> set dag1) dag2 then - 1
      else 0)"

lemma compare_two_dags_nonneg: "compare_two_dags dag1 dag2 \<noteq> - 1"
  by (auto simp: compare_two_dags_def list_ex_iff)

section \<open>Graph algorithms of the library\<close>

text \<open>
  \<^verbatim>\<open>nx.subgraph_view(graph, filter_node)\<close> and \<^verbatim>\<open>nx.subgraph_view(graph, filter_edge)\<close>:
  an edge shows when it passes the edge filter and both its ends pass the node filter.
\<close>

definition node_subgraph :: "graph \<Rightarrow> (node \<Rightarrow> bool) \<Rightarrow> graph" where
  "node_subgraph g P =
     \<lparr>g_nodes = filter (\<lambda>(k, a). P k) (g_nodes g),
      g_edges = filter (\<lambda>((u, v), d). P u \<and> P v) (g_edges g)\<rparr>"

definition edge_subgraph :: "graph \<Rightarrow> (node \<Rightarrow> node \<Rightarrow> edge_data \<Rightarrow> bool) \<Rightarrow> graph" where
  "edge_subgraph g P = g\<lparr>g_edges := filter (\<lambda>((u, v), d). P u v d) (g_edges g)\<rparr>"

text \<open>\<^verbatim>\<open>graph.edges[(a, b)].get('type', '')\<close>.\<close>

definition get_type :: "edge_data \<Rightarrow> string" where
  "get_type d = (case e_type d of None \<Rightarrow> [] | Some t \<Rightarrow> t)"

text \<open>
  Reachability, as the library's breadth-first search against the direction of the edges:
  each level holds the predecessors of the level before that were not seen yet. A level
  that is not empty holds a new node, so there are at most as many levels as nodes.
\<close>

fun reach_back_loop :: "nat \<Rightarrow> graph \<Rightarrow> node list \<Rightarrow> node list \<Rightarrow> node list" where
  "reach_back_loop 0 g level seen = seen"
| "reach_back_loop (Suc k) g level seen =
     (if level = [] then seen
      else (let new = remdups (filter (\<lambda>u. u \<notin> set seen) (concat (map (pred_list g) level)))
            in reach_back_loop k g new (seen @ new)))"

definition reach_back :: "graph \<Rightarrow> node \<Rightarrow> node list" where
  "reach_back g t = reach_back_loop (number_of_nodes g) g [t] [t]"

text \<open>\<^verbatim>\<open>nx.ancestors\<close>: the nodes with a path to the given one, itself excluded (as a set).\<close>

definition ancestors :: "graph \<Rightarrow> node \<Rightarrow> error + node list" where
  "ancestors g x =
     (if has_node g x then Inr (filter (\<lambda>n. n \<noteq> x) (reach_back g x)) else Inl NetworkXError)"

text \<open>\<^verbatim>\<open>nx.has_path\<close>: a node has a path to itself; a missing end is \<^verbatim>\<open>NodeNotFound\<close>.\<close>

definition has_path :: "graph \<Rightarrow> node \<Rightarrow> node \<Rightarrow> error + bool" where
  "has_path g s t =
     (if has_node g s \<and> has_node g t then Inr (s \<in> set (reach_back g t)) else Inl NodeNotFound)"

text \<open>
  \<^verbatim>\<open>nx.topological_sort\<close> as networkx 2.5 has it: the nodes of in-degree zero wait on a
  stack (the last one is taken first), every node taken lowers the count of its children,
  and a child whose count reaches zero is pushed. Counts left over at the end mean a cycle.
\<close>

fun visit_children ::
  "node list \<Rightarrow> node list \<Rightarrow> (node \<times> int) list \<Rightarrow> error + node list \<times> (node \<times> int) list" where
  "visit_children [] zero indegree = Inr (zero, indegree)"
| "visit_children (c # cs) zero indegree =
     (case map_of indegree c of
        None \<Rightarrow> Inl RuntimeError
      | Some d \<Rightarrow>
          (if d - 1 = 0
           then visit_children cs (zero @ [c]) (filter (\<lambda>(k, v). k \<noteq> c) indegree)
           else visit_children cs zero
                  (map (\<lambda>(k, v). if k = c then (k, v - 1) else (k, v)) indegree)))"

lemma visit_children_length:
  "visit_children cs zero indegree = Inr (zero', indegree') \<Longrightarrow>
     length zero' + length indegree' \<le> length zero + length indegree"
proof (induction cs arbitrary: zero indegree)
  case Nil
  then show ?case by simp
next
  case (Cons c cs)
  show ?case
  proof (cases "map_of indegree c")
    case None
    with Cons.prems show ?thesis by simp
  next
    case (Some d)
    then have "(c, d) \<in> set indegree"
      by (rule map_of_SomeD)
    then have less: "length (filter (\<lambda>(k, v). k \<noteq> c) indegree) < length indegree"
      by (intro length_filter_less [where x = "(c, d)"]) auto
    show ?thesis
    proof (cases "d - 1 = 0")
      case True
      with Some Cons.prems
      have "visit_children cs (zero @ [c]) (filter (\<lambda>(k, v). k \<noteq> c) indegree) = Inr (zero', indegree')"
        by simp
      from Cons.IH [OF this] less show ?thesis by simp
    next
      case False
      with Some Cons.prems
      have "visit_children cs zero (map (\<lambda>(k, v). if k = c then (k, v - 1) else (k, v)) indegree)
              = Inr (zero', indegree')"
        by simp
      from Cons.IH [OF this] show ?thesis by simp
    qed
  qed
qed

function topological_loop ::
  "graph \<Rightarrow> node list \<Rightarrow> (node \<times> int) list \<Rightarrow> node list \<Rightarrow> error + node list" where
  "topological_loop g zero indegree emitted =
     (if zero = []
      then (if indegree = [] then Inr emitted
            else Inl (NetworkXUnfeasible ''Graph contains a cycle or graph changed during iteration''))
      else if \<not> has_node g (last zero) then Inl RuntimeError
      else (case visit_children (succ_list g (last zero)) (butlast zero) indegree of
              Inl e \<Rightarrow> Inl e
            | Inr (zero', indegree') \<Rightarrow> topological_loop g zero' indegree' (emitted @ [last zero])))"
  by pat_completeness auto
termination
proof (relation "measure (\<lambda>(g, zero, indegree, emitted). length zero + length indegree)")
  show "wf (measure (\<lambda>(g, zero, indegree, emitted). length zero + length indegree))"
    by simp
next
  fix g :: graph and zero emitted :: "node list" and indegree indegree' :: "(node \<times> int) list"
    and x2 :: "node list \<times> (node \<times> int) list" and zero' :: "node list"
  assume nonempty: "zero \<noteq> []"
    and visit: "visit_children (succ_list g (last zero)) (butlast zero) indegree = Inr x2"
    and x2: "(zero', indegree') = x2"
  from visit x2 have "length zero' + length indegree' \<le> length (butlast zero) + length indegree"
    by (intro visit_children_length) simp
  with nonempty have "length zero' + length indegree' < length zero + length indegree"
    by (cases zero rule: rev_cases) auto
  then show "((g, zero', indegree', emitted @ [last zero]), (g, zero, indegree, emitted))
      \<in> measure (\<lambda>(g, zero, indegree, emitted). length zero + length indegree)"
    by simp
qed

declare topological_loop.simps [simp del]

definition topological_sort :: "graph \<Rightarrow> error + node list" where
  "topological_sort g =
     topological_loop g
       (filter (\<lambda>v. pred_list g v = []) (node_keys g))
       (map (\<lambda>v. (v, int (length (pred_list g v)))) (filter (\<lambda>v. pred_list g v \<noteq> []) (node_keys g)))
       []"




section \<open>The branch resolver\<close>

text \<open>
  \<^verbatim>\<open>list.sort(key=cmp_to_key(cmp))\<close> is stable and asks only whether one key is less than
  another, which \<^verbatim>\<open>cmp_to_key\<close> answers by \<^verbatim>\<open>cmp(a, b) < 0\<close>. Each element is inserted
  behind the sorted elements that are not greater than it.
\<close>

fun insert_sorted :: "('a \<Rightarrow> 'a \<Rightarrow> int) \<Rightarrow> 'a \<Rightarrow> 'a list \<Rightarrow> 'a list" where
  "insert_sorted cmp x [] = [x]"
| "insert_sorted cmp x (y # ys) =
     (if cmp x y < 0 then x # y # ys else y # insert_sorted cmp x ys)"

definition sort_cmp :: "('a \<Rightarrow> 'a \<Rightarrow> int) \<Rightarrow> 'a list \<Rightarrow> 'a list" where
  "sort_cmp cmp xs = foldl (\<lambda>sorted x. insert_sorted cmp x sorted) [] xs"

fun collect :: "('a \<Rightarrow> error + 'b) \<Rightarrow> 'a list \<Rightarrow> error + 'b list" where
  "collect f [] = Inr []"
| "collect f (x # xs) =
     (case f x of
        Inl e \<Rightarrow> Inl e
      | Inr y \<Rightarrow> (case collect f xs of Inl e \<Rightarrow> Inl e | Inr ys \<Rightarrow> Inr (y # ys)))"

text \<open>The body of the loop of \<^verbatim>\<open>get_branches\<close>, for one aggregation node.\<close>

definition branch_of :: "graph \<Rightarrow> node \<Rightarrow> node \<Rightarrow> error + node list" where
  "branch_of dag parent future_aggregation =
     (case ancestors dag future_aggregation of
        Inl e \<Rightarrow> Inl e
      | Inr agg_ancestors \<Rightarrow>
          (case ancestors dag parent of
             Inl e \<Rightarrow> Inl e
           | Inr node_ancestors \<Rightarrow>
               (case topological_sort
                       (node_subgraph dag (\<lambda>n. n \<in> set agg_ancestors \<and> n \<notin> set node_ancestors)) of
                  Inl e \<Rightarrow> Inl e
                | Inr order \<Rightarrow> Inr (tl order @ [future_aggregation, parent]))))"

text \<open>
  \<^verbatim>\<open>any(i[-1]['type'] == 'unwind' for i in dag.in_edges(parent, data=True, ...))\<close>: an
  edge without a type raises before a later unwind edge is seen.
\<close>

fun any_unwind :: "((node \<times> node) \<times> edge_data) list \<Rightarrow> error + bool" where
  "any_unwind [] = Inr False"
| "any_unwind ((k, d) # es) =
     (case e_type d of
        None \<Rightarrow> Inl KeyError
      | Some t \<Rightarrow> if t = ''unwind'' then Inr True else any_unwind es)"

definition get_branches :: "graph \<Rightarrow> graph \<Rightarrow> node \<Rightarrow> error + node list list \<times> bool" where
  "get_branches dag backwards parent =
     (case predecessors backwards parent of
        Inl e \<Rightarrow> Inl e
      | Inr aggregations \<Rightarrow>
          (case collect (branch_of dag parent) aggregations of
             Inl e \<Rightarrow> Inl e
           | Inr branches \<Rightarrow>
               (case any_unwind (in_edges dag parent) of
                  Inl e \<Rightarrow> Inl e
                | Inr unwound \<Rightarrow> Inr (sort_cmp compare_two_dags branches, \<not> unwound))))"

section \<open>Builder scripts\<close>

text \<open>
  A front end holds the node labels that earlier builder calls returned and passes them
  back as parents, scope anchors and dependencies. A script is a list of calls on a
  fresh \<^verbatim>\<open>QueryGraph\<close>, each naming its nodes by position among the labels obtained so
  far (position 0 is \<^verbatim>\<open>G.start\<close>); a call that names a label not yet obtained does not get
  as far as the builder.
\<close>

datatype builder_call =
    AddTraversal "string list" "nat option"
  | AddOperation nat "nat list" string
  | AddAggregation nat nat string
  | AddFilter nat "nat list" string

definition handle_ok :: "node list \<Rightarrow> nat \<Rightarrow> bool" where
  "handle_ok hs i = (i < length hs)"

fun run_call :: "query_graph \<times> node list \<Rightarrow> builder_call \<Rightarrow> error + query_graph \<times> node list" where
  "run_call (q, hs) (AddTraversal path parent) =
     (if (case parent of None \<Rightarrow> True | Some p \<Rightarrow> handle_ok hs p)
      then (case qg_add_traversal q path (map_option (nth hs) parent) of
              Inl e \<Rightarrow> Inl e | Inr (q', n) \<Rightarrow> Inr (q', hs @ [n]))
      else Inl NameError)"
| "run_call (q, hs) (AddOperation parent deps operation) =
     (if handle_ok hs parent \<and> list_all (handle_ok hs) deps
      then (case qg_add_operation q (hs ! parent) (map (nth hs) deps) operation of
              Inl e \<Rightarrow> Inl e | Inr (q', n) \<Rightarrow> Inr (q', hs @ [n]))
      else Inl NameError)"
| "run_call (q, hs) (AddAggregation parent wrt operation) =
     (if handle_ok hs parent \<and> handle_ok hs wrt
      then (case qg_add_aggregation q (hs ! parent) (hs ! wrt) operation of
              Inl e \<Rightarrow> Inl e | Inr (q', n) \<Rightarrow> Inr (q', hs @ [n]))
      else Inl NameError)"
| "run_call (q, hs) (AddFilter parent deps operation) =
     (if handle_ok hs parent \<and> list_all (handle_ok hs) deps
      then (case qg_add_filter q (hs ! parent) (map (nth hs) deps) operation of
              Inl e \<Rightarrow> Inl e | Inr (q', n) \<Rightarrow> Inr (q', hs @ [n]))
      else Inl NameError)"

fun run_calls :: "query_graph \<times> node list \<Rightarrow> builder_call list \<Rightarrow> error + query_graph \<times> node list" where
  "run_calls s [] = Inr s"
| "run_calls s (c # cs) = (case run_call s c of Inl e \<Rightarrow> Inl e | Inr s' \<Rightarrow> run_calls s' cs)"

definition build :: "builder_call list \<Rightarrow> error + query_graph \<times> node list" where
  "build cs = run_calls (new_query_graph, [qstart new_query_graph]) cs"

definition built_graph :: "builder_call list \<Rightarrow> graph" where
  "built_graph cs = (case build cs of Inr (q, hs) \<Rightarrow> qG q | Inl e \<Rightarrow> empty_graph)"

text \<open>The two views every compiler entry takes of a graph: its edges but the scope edges, and the scope edges.\<close>

definition dag_view :: "graph \<Rightarrow> graph" where
  "dag_view g = edge_subgraph g (\<lambda>a b d. get_type d \<noteq> ''wrt'')"

definition wrt_view :: "graph \<Rightarrow> graph" where
  "wrt_view g = edge_subgraph g (\<lambda>a b d. get_type d = ''wrt'')"

subsection \<open>Example queries\<close>

abbreviation (input) start_node :: node where "start_node \<equiv> ''0\<newline>data\<newline>data''"
abbreviation (input) ob_node :: node where "ob_node \<equiv> ''1\<newline>OB\<newline>data->OB''"
abbreviation (input) run_node :: node where "run_node \<equiv> ''2\<newline>run\<newline>data->OB->run''"
abbreviation (input) count_node :: node where "count_node \<equiv> ''3\<newline>count\<newline>data->OB''"

text \<open>\<^verbatim>\<open>obs = data.OB; runs = obs.run; count(runs, wrt=obs)\<close>.\<close>

definition count_query :: graph where
  "count_query = built_graph
     [AddTraversal [''OB''] None, AddTraversal [''run''] (Some 1), AddAggregation 2 1 ''count'']"

lemma count_query_shape:
  "node_keys count_query = [start_node, ob_node, run_node, count_node]"
  "map (\<lambda>(k, d). (k, e_type d)) (g_edges count_query) =
     [((start_node, ob_node), Some ''traversal''),
      ((ob_node, run_node), Some ''traversal''),
      ((run_node, count_node), Some ''aggr''),
      ((count_node, ob_node), Some ''wrt'')]"
  by code_simp+

text \<open>
  Two aggregations scoped to the same node, the second over a filter that depends on
  the first:
  \<^verbatim>\<open>c = count(obs.run, wrt=obs); any(obs.target[c], wrt=obs)\<close>.
\<close>

abbreviation (input) target_node :: node where
  "target_node \<equiv> ''4\<newline>target\<newline>data->OB->target''"
abbreviation (input) filtered_node :: node where
  "filtered_node \<equiv> ''5\<newline>target\<newline>data->OB->target''"
abbreviation (input) any_node :: node where
  "any_node \<equiv> ''6\<newline>any\<newline>data->OB''"

definition two_aggregations :: graph where
  "two_aggregations = built_graph
     [AddTraversal [''OB''] None, AddTraversal [''run''] (Some 1), AddAggregation 2 1 ''count'',
      AddTraversal [''target''] (Some 1), AddFilter 4 [3] ''c'', AddAggregation 5 1 ''any'']"

lemma two_aggregations_shape:
  "node_keys two_aggregations =
     [start_node, ob_node, run_node, count_node, target_node, filtered_node, any_node]"
  "map (\<lambda>(k, d). (k, e_type d)) (g_edges two_aggregations) =
     [((start_node, ob_node), Some ''traversal''),
      ((ob_node, run_node), Some ''traversal''),
      ((run_node, count_node), Some ''aggr''),
      ((count_node, ob_node), Some ''wrt''),
      ((ob_node, target_node), Some ''traversal''),
      ((target_node, filtered_node), Some ''filter''),
      ((count_node, filtered_node), Some ''dep''),
      ((filtered_node, any_node), Some ''aggr''),
      ((any_node, ob_node), Some ''wrt'')]"
  by code_simp+

section \<open>Properties of the branch resolver\<close>

lemma compare_two_dags_not_less: "\<not> compare_two_dags dag1 dag2 < 0"
  by (auto simp: compare_two_dags_def list_ex_iff)

lemma insert_sorted_behind:
  "(\<And>y. \<not> cmp x y < 0) \<Longrightarrow> insert_sorted cmp x ys = ys @ [x]"
  by (induction ys) auto

lemma foldl_insert_sorted:
  "(\<And>x y. \<not> cmp x y < 0) \<Longrightarrow>
     foldl (\<lambda>sorted x. insert_sorted cmp x sorted) acc xs = acc @ xs"
  by (induction xs arbitrary: acc) (auto simp: insert_sorted_behind)

lemma sort_compare_two_dags: "sort_cmp compare_two_dags branches = branches"
  by (simp add: sort_cmp_def foldl_insert_sorted compare_two_dags_not_less)

lemma collect_nth:
  "collect f xs = Inr ys \<Longrightarrow> length ys = length xs \<and> (\<forall>i < length xs. f (xs ! i) = Inr (ys ! i))"
proof (induction xs arbitrary: ys)
  case Nil
  then show ?case by simp
next
  case (Cons x xs)
  from Cons.prems obtain y ys' where y: "f x = Inr y" and ys': "collect f xs = Inr ys'"
    and ys: "ys = y # ys'"
    by (auto split: sum.splits)
  from Cons.IH [OF ys'] have len: "length ys' = length xs"
    and nth: "\<And>i. i < length xs \<Longrightarrow> f (xs ! i) = Inr (ys' ! i)"
    by auto
  show ?case
  proof (intro conjI allI impI)
    show "length ys = length (x # xs)"
      using len ys by simp
  next
    fix i assume "i < length (x # xs)"
    then show "f ((x # xs) ! i) = Inr (ys ! i)"
      using y ys nth by (cases i) auto
  qed
qed

lemma branch_of_Inr:
  assumes "branch_of dag parent a = Inr b"
  shows "\<exists>agg_ancestors node_ancestors order.
           ancestors dag a = Inr agg_ancestors \<and> ancestors dag parent = Inr node_ancestors \<and>
           topological_sort (node_subgraph dag (\<lambda>n. n \<in> set agg_ancestors \<and> n \<notin> set node_ancestors))
             = Inr order \<and>
           b = tl order @ [a, parent]"
  using assms by (auto simp: branch_of_def split: sum.splits)

text \<open>
  The branch as the specification words it: the whole topological order of
  \<open>ancestors(A) - ancestors(N)\<close>, followed by \<open>A\<close> and \<open>N\<close>.
\<close>

definition branch_as_specified :: "graph \<Rightarrow> node \<Rightarrow> node \<Rightarrow> error + node list" where
  "branch_as_specified dag parent a =
     (case ancestors dag a of
        Inl e \<Rightarrow> Inl e
      | Inr agg_ancestors \<Rightarrow>
          (case ancestors dag parent of
             Inl e \<Rightarrow> Inl e
           | Inr node_ancestors \<Rightarrow>
               (case topological_sort
                       (node_subgraph dag (\<lambda>n. n \<in> set agg_ancestors \<and> n \<notin> set node_ancestors)) of
                  Inl e \<Rightarrow> Inl e
                | Inr order \<Rightarrow> Inr (order @ [a, parent]))))"

text \<open>
  C3, as stated, fails. For the count query the scope anchor of the aggregation is the
  OB node; the set difference is the OB node and the run node, and the specification's
  branch would start with the OB node. The code drops the first element of the
  topological order (\<^verbatim>\<open>[1:]\<close>), so the branch it returns starts with the run node.
\<close>

theorem get_branches_drops_first_counterexample:
  "get_branches (dag_view count_query) (wrt_view count_query) ob_node
     = Inr ([[run_node, count_node, ob_node]], True) \<and>
   branch_as_specified (dag_view count_query) ob_node count_node
     = Inr [ob_node, run_node, count_node, ob_node]"
  by code_simp

text \<open>
  C3, amended: \<^verbatim>\<open>get_branches\<close> returns one branch for each aggregation node \<open>A\<close> with a
  scope edge into \<open>N\<close>, in the order in which \<open>N\<close> lists these predecessors, and the
  branch of \<open>A\<close> is the topological order of \<open>ancestors(A) - ancestors(N)\<close> without its first
  element, followed by \<open>A\<close> and \<open>N\<close>.
\<close>

theorem get_branches_one_branch_per_aggregation:
  assumes "get_branches dag backwards parent = Inr (branches, flag)"
  shows "length branches = length (pred_list backwards parent) \<and>
         (\<forall>i < length branches.
            \<exists>agg_ancestors node_ancestors order.
              ancestors dag (pred_list backwards parent ! i) = Inr agg_ancestors \<and>
              ancestors dag parent = Inr node_ancestors \<and>
              topological_sort
                (node_subgraph dag (\<lambda>n. n \<in> set agg_ancestors \<and> n \<notin> set node_ancestors)) = Inr order \<and>
              branches ! i = tl order @ [pred_list backwards parent ! i, parent])"
proof -
  from assms have coll: "collect (branch_of dag parent) (pred_list backwards parent) = Inr branches"
    by (auto simp: get_branches_def predecessors_def sort_compare_two_dags
             split: sum.splits if_splits)
  from collect_nth [OF coll] have len: "length branches = length (pred_list backwards parent)"
    and nth: "\<And>i. i < length (pred_list backwards parent) \<Longrightarrow>
                branch_of dag parent (pred_list backwards parent ! i) = Inr (branches ! i)"
    by auto
  show ?thesis
  proof (intro conjI allI impI)
    show "length branches = length (pred_list backwards parent)"
      by (rule len)
  next
    fix i assume "i < length branches"
    with len have "branch_of dag parent (pred_list backwards parent ! i) = Inr (branches ! i)"
      by (intro nth) simp
    then show "\<exists>agg_ancestors node_ancestors order.
        ancestors dag (pred_list backwards parent ! i) = Inr agg_ancestors \<and>
        ancestors dag parent = Inr node_ancestors \<and>
        topological_sort
          (node_subgraph dag (\<lambda>n. n \<in> set agg_ancestors \<and> n \<notin> set node_ancestors)) = Inr order \<and>
        branches ! i = tl order @ [pred_list backwards parent ! i, parent]"
      by (rule branch_of_Inr)
  qed
qed

lemma two_aggregations_branches:
  "get_branches (dag_view two_aggregations) (wrt_view two_aggregations) ob_node
     = Inr ([[run_node, count_node, ob_node],
             [target_node, run_node, count_node, filtered_node, any_node, ob_node]], True)"
  by code_simp

theorem get_branches_one_branch_per_aggregation_witness:
  "get_branches (dag_view two_aggregations) (wrt_view two_aggregations) ob_node
     = Inr ([[run_node, count_node, ob_node],
             [target_node, run_node, count_node, filtered_node, any_node, ob_node]], True) \<and>
   pred_list (wrt_view two_aggregations) ob_node = [count_node, any_node] \<and>
   (\<exists>agg_ancestors node_ancestors order.
      ancestors (dag_view two_aggregations) any_node = Inr agg_ancestors \<and>
      ancestors (dag_view two_aggregations) ob_node = Inr node_ancestors \<and>
      topological_sort
        (node_subgraph (dag_view two_aggregations)
           (\<lambda>n. n \<in> set agg_ancestors \<and> n \<notin> set node_ancestors)) = Inr order \<and>
      [target_node, run_node, count_node, filtered_node, any_node, ob_node]
        = tl order @ [any_node, ob_node])"
proof -
  have preds: "pred_list (wrt_view two_aggregations) ob_node = [count_node, any_node]"
    by code_simp
  from get_branches_one_branch_per_aggregation [OF two_aggregations_branches]
  have "\<forall>i < 2. \<exists>agg_ancestors node_ancestors order.
      ancestors (dag_view two_aggregations) ([count_node, any_node] ! i) = Inr agg_ancestors \<and>
      ancestors (dag_view two_aggregations) ob_node = Inr node_ancestors \<and>
      topological_sort
        (node_subgraph (dag_view two_aggregations)
           (\<lambda>n. n \<in> set agg_ancestors \<and> n \<notin> set node_ancestors)) = Inr order \<and>
      [[run_node, count_node, ob_node],
       [target_node, run_node, count_node, filtered_node, any_node, ob_node]] ! i
        = tl order @ [[count_node, any_node] ! i, ob_node]"
    unfolding preds by simp
  then have "\<exists>agg_ancestors node_ancestors order.
      ancestors (dag_view two_aggregations) ([count_node, any_node] ! 1) = Inr agg_ancestors \<and>
      ancestors (dag_view two_aggregations) ob_node = Inr node_ancestors \<and>
      topological_sort
        (node_subgraph (dag_view two_aggregations)
           (\<lambda>n. n \<in> set agg_ancestors \<and> n \<notin> set node_ancestors)) = Inr order \<and>
      [[run_node, count_node, ob_node],
       [target_node, run_node, count_node, filtered_node, any_node, ob_node]] ! 1
        = tl order @ [[count_node, any_node] ! 1, ob_node]"
    by (rule allE [where x = 1]) simp
  then show ?thesis
    using two_aggregations_branches preds by simp
qed

text \<open>
  C4: the comparison is not antisymmetric. Whenever two branches share a node the first
  test succeeds in either order of the arguments, and every two branches of one node
  share that node; the answer \<open>-1\<close> is never given. On the two branches of the OB node
  above, the first is contained in the second, and each compares as greater than the
  other.
\<close>

theorem compare_two_dags_symmetric_on_branches:
  "get_branches (dag_view two_aggregations) (wrt_view two_aggregations) ob_node
     = Inr ([[run_node, count_node, ob_node],
             [target_node, run_node, count_node, filtered_node, any_node, ob_node]], True) \<and>
   compare_two_dags [run_node, count_node, ob_node]
     [target_node, run_node, count_node, filtered_node, any_node, ob_node] = 1 \<and>
   compare_two_dags [target_node, run_node, count_node, filtered_node, any_node, ob_node]
     [run_node, count_node, ob_node] = 1"
  by code_simp

section \<open>State preservation\<close>






section \<open>The topological compiler\<close>

subsection \<open>Views\<close>

text \<open>
  The compiler works on one graph object, \<^verbatim>\<open>original_graph\<close>, and on views of it. A view
  is live: it shows what the graph underneath holds at the moment it is read. The graph
  objects live in a heap, and a view names the object at its root.

  \<^verbatim>\<open>subgraph_view\<close> of the source builds its view with \<^verbatim>\<open>nx.restricted_view\<close>, from a list of
  hidden nodes and a list of hidden edges which it computes once, from what the graph
  holds when the view is made, and then (with \<^verbatim>\<open>path_to\<close>) keeps the nodes from which the
  target can be reached in the graph it was given.
\<close>

type_synonym ref = nat
type_synonym heap = "graph list"

datatype graph_view =
    Whole ref
  | Restricted graph_view "node list" "(node \<times> node) list" "node option"

text \<open>
  Reading a view. The \<^verbatim>\<open>has_path\<close> filter is asked for every node that passes the hidden
  lists; it raises \<^verbatim>\<open>NodeNotFound\<close> when the target is not in the graph it searches.
\<close>

fun view_graph :: "heap \<Rightarrow> graph_view \<Rightarrow> error + graph" where
  "view_graph h (Whole r) = Inr (h ! r)"
| "view_graph h (Restricted v hidden_nodes hidden_edges path_to) =
     (case view_graph h v of
        Inl e \<Rightarrow> Inl e
      | Inr gv \<Rightarrow>
          (let shown = \<lparr>g_nodes = filter (\<lambda>(k, a). k \<notin> set hidden_nodes) (g_nodes gv),
                        g_edges = filter (\<lambda>((a, b), d). (a, b) \<notin> set hidden_edges \<and>
                                    a \<notin> set hidden_nodes \<and> b \<notin> set hidden_nodes) (g_edges gv)\<rparr>
           in case path_to of
                None \<Rightarrow> Inr shown
              | Some t \<Rightarrow>
                  if g_nodes shown = [] then Inr empty_graph
                  else if \<not> has_node gv t then Inl NodeNotFound
                  else (let reaching = reach_back gv t
                        in Inr (node_subgraph shown (\<lambda>n. n \<in> set reaching)))))"

record view_args =
  excluded_edge_type :: "string option"
  only_edge_type :: "string option"
  only_nodes :: "node list option"
  excluded_nodes :: "node list option"
  only_edges :: "(node \<times> node) list option"
  excluded_edges :: "(node \<times> node) list option"
  path_to :: "node option"

definition no_args :: view_args where
  "no_args = \<lparr>excluded_edge_type = None, only_edge_type = None, only_nodes = None,
              excluded_nodes = None, only_edges = None, excluded_edges = None, path_to = None\<rparr>"

definition from_option :: "'a list option \<Rightarrow> 'a list" where
  "from_option x = (case x of None \<Rightarrow> [] | Some xs \<Rightarrow> xs)"

text \<open>The hidden lists of \<^verbatim>\<open>subgraph_view\<close>, from the graph as it is read now.\<close>

definition hidden_edge_list :: "graph \<Rightarrow> view_args \<Rightarrow> (node \<times> node) list" where
  "hidden_edge_list g args =
     from_option (excluded_edges args)
     @ (case excluded_edge_type args of
          None \<Rightarrow> []
        | Some ty \<Rightarrow> map fst (filter (\<lambda>(k, d). get_type d = ty) (g_edges g)))
     @ (case only_edge_type args of
          None \<Rightarrow> []
        | Some ty \<Rightarrow> map fst (filter (\<lambda>(k, d). get_type d \<noteq> ty) (g_edges g)))
     @ (case only_edges args of
          None \<Rightarrow> []
        | Some es \<Rightarrow> filter (\<lambda>k. k \<notin> set es) (edge_keys g))"

definition hidden_node_list :: "graph \<Rightarrow> view_args \<Rightarrow> node list" where
  "hidden_node_list g args =
     from_option (excluded_nodes args)
     @ (case only_nodes args of
          None \<Rightarrow> []
        | Some ns \<Rightarrow> filter (\<lambda>n. n \<notin> set ns) (node_keys g))"

text \<open>\<^verbatim>\<open>if path_to:\<close> is false for \<^verbatim>\<open>None\<close> and for the empty string.\<close>

definition truthy :: "node option \<Rightarrow> node option" where
  "truthy p = (case p of None \<Rightarrow> None | Some t \<Rightarrow> if t = [] then None else Some t)"

definition reads_graph :: "view_args \<Rightarrow> bool" where
  "reads_graph args =
     (excluded_edge_type args \<noteq> None \<or> only_edge_type args \<noteq> None \<or>
      only_nodes args \<noteq> None \<or> only_edges args \<noteq> None)"

definition subgraph_view :: "heap \<Rightarrow> graph_view \<Rightarrow> view_args \<Rightarrow> error + graph_view" where
  "subgraph_view h v args =
     (if reads_graph args
      then (case view_graph h v of
              Inl e \<Rightarrow> Inl e
            | Inr g \<Rightarrow>
                Inr (Restricted v (hidden_node_list g args) (hidden_edge_list g args)
                       (truthy (path_to args))))
      else Inr (Restricted v (from_option (excluded_nodes args)) (from_option (excluded_edges args))
                  (truthy (path_to args))))"

subsection \<open>Statements, saved state\<close>

text \<open>
  A statement is what \<^verbatim>\<open>get_statement_data\<close> returns: the attributes of the two nodes, the
  attributes of the edge and the aggregating flag, as they are when the statement is
  yielded.
\<close>

type_synonym statement = "node_data option \<times> node_data option \<times> edge_data \<times> bool"

definition node_dict :: "graph \<Rightarrow> node \<Rightarrow> error + node_data option" where
  "node_dict g n = (case map_of (g_nodes g) n of None \<Rightarrow> Inl KeyError | Some a \<Rightarrow> Inr a)"

definition get_statement_data :: "graph \<Rightarrow> node \<Rightarrow> node \<Rightarrow> bool \<Rightarrow> error + statement" where
  "get_statement_data g a b is_aggregating =
     (case node_dict g a of
        Inl e \<Rightarrow> Inl e
      | Inr da \<Rightarrow>
          (case node_dict g b of
             Inl e \<Rightarrow> Inl e
           | Inr db \<Rightarrow>
               (case edge_attrs g a b of
                  Inl e \<Rightarrow> Inl e
                | Inr d \<Rightarrow> Inr (da, db, d, is_aggregating))))"

definition set_edge_attrs :: "graph \<Rightarrow> node \<Rightarrow> node \<Rightarrow> edge_data \<Rightarrow> graph" where
  "set_edge_attrs g u v d =
     g\<lparr>g_edges := map (\<lambda>(k, x). if k = (u, v) then (k, d) else (k, x)) (g_edges g)\<rparr>"

text \<open>
  The loop of \<^verbatim>\<open>save_state\<close> over the successors the node had when the loop began. The
  keyword arguments \<^verbatim>\<open>**d\<close> of \<^verbatim>\<open>make_node\<close> are the label, type and operation just written
  into the edge from the scope anchor, and its style if it has one.
\<close>

fun save_loop ::
  "graph \<Rightarrow> node \<Rightarrow> node \<Rightarrow> node \<Rightarrow> string \<Rightarrow> string option \<Rightarrow> node list \<Rightarrow> graph \<times> (error + unit)" where
  "save_loop g wrt node aggregated label style [] = (g, Inr ())"
| "save_loop g wrt node aggregated label style (successor # rest) =
     (if successor \<noteq> aggregated
      then (case node_attrs g node of
              Inl e \<Rightarrow> (g, Inl e)
            | Inr nd \<Rightarrow>
                (case make_node g (Some wrt) (n_subgraph nd) [] label ''load-state'' ''load-state'' style of
                   (g1, loaded_state) \<Rightarrow>
                     (case edge_attrs g1 node successor of
                        Inl e \<Rightarrow> (g1, Inl e)
                      | Inr d \<Rightarrow>
                          (case remove_edge (add_edge g1 loaded_state successor d) node successor of
                             Inl e \<Rightarrow> (add_edge g1 loaded_state successor d, Inl e)
                           | Inr g2 \<Rightarrow> save_loop g2 wrt node aggregated label style rest))))
      else save_loop g wrt node aggregated label style rest)"

definition save_state :: "graph \<Rightarrow> node \<Rightarrow> node \<Rightarrow> graph \<times> (error + node)" where
  "save_state g wrt node =
     (case add_aggregation g node wrt ''save-state'' ''save-state'' of
        Inl e \<Rightarrow> (g, Inl e)
      | Inr (g1, aggregated) \<Rightarrow>
          (case edge_attrs g1 wrt node of
             Inl e \<Rightarrow> (g1, Inl e)
           | Inr d \<Rightarrow>
               (case node_attrs g1 node of
                  Inl e \<Rightarrow> (g1, Inl e)
                | Inr nd \<Rightarrow>
                    (let label = ''load-state '' @ n_name nd;
                         g2 = set_edge_attrs g1 wrt node
                                (d\<lparr>e_label := Some label, e_type := Some ''load-state'',
                                   e_operation := Some ''load-state''\<rparr>)
                     in case save_loop g2 wrt node aggregated label (e_style d) (succ_list g2 node) of
                          (g3, Inl e) \<Rightarrow> (g3, Inl e)
                        | (g3, Inr u) \<Rightarrow> (g3, Inr aggregated)))))"

text \<open>
  \<^verbatim>\<open>has_outside_dependencies\<close>: the second graph is the view \<^verbatim>\<open>G\<close> as read at the top of
  the loop iteration; nothing has changed the graph under it since.
\<close>

fun any_outside :: "graph \<Rightarrow> graph \<Rightarrow> node \<Rightarrow> node list \<Rightarrow> error + bool" where
  "any_outside super_graph g node [] = Inr False"
| "any_outside super_graph g node (n # ns) =
     (case edge_attrs super_graph node n of
        Inl e \<Rightarrow> Inl e
      | Inr d \<Rightarrow>
          (case e_type d of
             None \<Rightarrow> Inl KeyError
           | Some t \<Rightarrow>
               if t \<noteq> ''load-state'' \<and> \<not> has_node g n then Inr True
               else any_outside super_graph g node ns))"

definition has_outside_dependencies :: "graph \<Rightarrow> graph \<Rightarrow> node \<Rightarrow> error + bool" where
  "has_outside_dependencies super_graph g node =
     (case successors super_graph node of
        Inl e \<Rightarrow> Inl e
      | Inr ns \<Rightarrow> any_outside super_graph g node ns)"

subsection \<open>\<^verbatim>\<open>traverse_query_graph\<close>\<close>

text \<open>
  The local variables of one activation of the generator. \<^verbatim>\<open>original_graph\<close> is the
  object all changes go to.
\<close>

record frame =
  f_G :: graph_view
  f_dag :: graph_view
  f_backwards :: graph_view
  f_node :: node
  f_start :: node
  f_output :: node
  f_aggregating :: bool
  f_original :: ref

text \<open>The lines between the copy and the loop: the two views and the start node.\<close>

definition enter ::
  "heap \<Rightarrow> graph_view \<Rightarrow> node \<Rightarrow> node \<Rightarrow> ref \<Rightarrow> bool \<Rightarrow> error + frame" where
  "enter h G output node original aggregating =
     (case subgraph_view h G (no_args\<lparr>excluded_edge_type := Some ''wrt''\<rparr>) of
        Inl e \<Rightarrow> Inl e
      | Inr dag \<Rightarrow>
          (case subgraph_view h G (no_args\<lparr>only_edge_type := Some ''wrt''\<rparr>) of
             Inl e \<Rightarrow> Inl e
           | Inr backwards \<Rightarrow>
               Inr \<lparr>f_G = G, f_dag = dag, f_backwards = backwards, f_node = node, f_start = node,
                    f_output = output, f_aggregating = aggregating, f_original = original\<rparr>))"

definition fatal :: error where
  "fatal = NetworkXUnfeasible ''Fatal: Query node has > 1 unaggregated-successors. This is a bug''"

text \<open>
  The successors of a node in a view, and those the fatal check counts: the successors
  in the dependency view once the edges now typed \<^verbatim>\<open>load-state\<close> are hidden as well.
\<close>

definition view_successors :: "heap \<Rightarrow> graph_view \<Rightarrow> node \<Rightarrow> error + node list" where
  "view_successors h v n =
     (case view_graph h v of Inl e \<Rightarrow> Inl e | Inr g \<Rightarrow> successors g n)"

definition unaggregated_successors :: "heap \<Rightarrow> frame \<Rightarrow> error + node list" where
  "unaggregated_successors h fr =
     (case subgraph_view h (f_dag fr) (no_args\<lparr>excluded_edge_type := Some ''load-state''\<rparr>) of
        Inl e \<Rightarrow> Inl e
      | Inr v \<Rightarrow> view_successors h v (f_node fr))"

text \<open>
  One pass through the loop body below the branch handling has three outcomes: an
  exception, the \<^verbatim>\<open>return\<close>, or the next frame. It yields at most one statement, and
  what it does after the \<^verbatim>\<open>yield\<close> can still raise.
\<close>

type_synonym step = "heap \<times> statement list \<times> (error + frame option)"

text \<open>
  After the \<^verbatim>\<open>yield\<close>, inside a branch: a successor that something outside the view
  depends on has its state saved, and the three views are made again.
\<close>

definition save_if_needed :: "heap \<Rightarrow> frame \<Rightarrow> graph \<Rightarrow> node \<Rightarrow> heap \<times> (error + frame)" where
  "save_if_needed h fr gG successor =
     (if f_aggregating fr \<and> successor \<noteq> f_output fr
      then (case has_outside_dependencies (h ! f_original fr) gG successor of
              Inl e \<Rightarrow> (h, Inl e)
            | Inr False \<Rightarrow> (h, Inr fr)
            | Inr True \<Rightarrow>
                (case save_state (h ! f_original fr) (f_start fr) successor of
                   (g', Inl e) \<Rightarrow> (h[f_original fr := g'], Inl e)
                 | (g', Inr aggregated) \<Rightarrow>
                     (let h' = h[f_original fr := g'] in
                      case subgraph_view h' (f_G fr) (no_args\<lparr>path_to := Some (f_output fr)\<rparr>) of
                        Inl e \<Rightarrow> (h', Inl e)
                      | Inr G' \<Rightarrow>
                          (case subgraph_view h' G' (no_args\<lparr>excluded_edge_type := Some ''wrt''\<rparr>) of
                             Inl e \<Rightarrow> (h', Inl e)
                           | Inr dag' \<Rightarrow>
                               (case subgraph_view h' G' (no_args\<lparr>only_edge_type := Some ''wrt''\<rparr>) of
                                  Inl e \<Rightarrow> (h', Inl e)
                                | Inr backwards' \<Rightarrow>
                                    (h', Inr (fr\<lparr>f_G := G', f_dag := dag',
                                                 f_backwards := backwards'\<rparr>)))))))
      else (h, Inr fr))"

text \<open>From the \<^verbatim>\<open>yield\<close> on: the statement is out, whatever happens next.\<close>

definition emit_and_consume :: "heap \<Rightarrow> frame \<Rightarrow> graph \<Rightarrow> node \<Rightarrow> step" where
  "emit_and_consume h fr gG successor =
     (case get_statement_data gG (f_node fr) successor (f_aggregating fr) of
        Inl e \<Rightarrow> (h, [], Inl e)
      | Inr stmt \<Rightarrow>
          (case save_if_needed h fr gG successor of
             (h1, Inl e) \<Rightarrow> (h1, [stmt], Inl e)
           | (h1, Inr fr1) \<Rightarrow>
               (case remove_edge (h1 ! f_original fr) (f_node fr) successor of
                  Inl e \<Rightarrow> (h1, [stmt], Inl e)
                | Inr g' \<Rightarrow>
                    (h1[f_original fr := g'], [stmt], Inr (Some (fr1\<lparr>f_node := successor\<rparr>))))))"

text \<open>The loop body from the fatal check on; \<open>gG\<close> is the view \<^verbatim>\<open>G\<close> as read at the top of the iteration.\<close>

definition advance :: "heap \<Rightarrow> frame \<Rightarrow> graph \<Rightarrow> step" where
  "advance h fr gG =
     (case unaggregated_successors h fr of
        Inl e \<Rightarrow> (h, [], Inl e)
      | Inr unaggregated \<Rightarrow>
          if length unaggregated > 1 then (h, [], Inl fatal)
          else (case view_successors h (f_backwards fr) (f_node fr) of
                  Inl e \<Rightarrow> (h, [], Inl e)
                | Inr scope_successors \<Rightarrow>
                    (case view_successors h (f_dag fr) (f_node fr) of
                       Inl e \<Rightarrow> (h, [], Inl e)
                     | Inr dag_successors \<Rightarrow>
                         (case scope_successors @ dag_successors of
                            [] \<Rightarrow> (h, [], Inr None)
                          | successor # others \<Rightarrow> emit_and_consume h fr gG successor))))"

text \<open>
  The branches of the current node, from the two views as they are now.
\<close>

definition frame_branches :: "heap \<Rightarrow> frame \<Rightarrow> error + node list list \<times> bool" where
  "frame_branches h fr =
     (case view_graph h (f_dag fr) of
        Inl e \<Rightarrow> Inl e
      | Inr dag \<Rightarrow>
          (case view_graph h (f_backwards fr) of
             Inl e \<Rightarrow> Inl e
           | Inr backwards \<Rightarrow> get_branches dag backwards (f_node fr)))"

text \<open>
  Entering a branch: \<^verbatim>\<open>branch[-2]\<close> is the aggregation node, the edge from it to the
  current node is hidden, and the recursive activation walks the nodes of the branch that
  reach the aggregation node.
\<close>

definition enter_branch :: "heap \<Rightarrow> frame \<Rightarrow> node list \<Rightarrow> error + frame" where
  "enter_branch h fr branch =
     (if length branch < 2 then Inl IndexError
      else (let aggregation = last (butlast branch) in
            case subgraph_view h (f_G fr)
                   (no_args\<lparr>only_nodes := Some branch,
                            excluded_edges := Some [(aggregation, f_node fr)],
                            path_to := Some aggregation\<rparr>) of
              Inl e \<Rightarrow> Inl e
            | Inr sub_graph \<Rightarrow> enter h sub_graph aggregation (f_node fr) (f_original fr) True))"

text \<open>After the branch: its scope edge and its aggregation node are removed from the graph.\<close>

definition leave_branch :: "heap \<Rightarrow> ref \<Rightarrow> node list \<Rightarrow> heap \<times> (error + unit)" where
  "leave_branch h original branch =
     (case remove_edge (h ! original) (last (butlast branch)) (last branch) of
        Inl e \<Rightarrow> (h, Inl e)
      | Inr g1 \<Rightarrow>
          (case remove_node g1 (last (butlast branch)) of
             Inl e \<Rightarrow> (h[original := g1], Inl e)
           | Inr g2 \<Rightarrow> (h[original := g2], Inr ())))"

datatype outcome = Finished | Raised error | OutOfFuel

type_synonym run = "heap \<times> statement list \<times> outcome"

text \<open>
  The loop. Nothing in the source bounds the number of iterations, so the loop takes
  fuel: one unit for each iteration and for each recursive activation. A run that
  finishes or raises does so in the same way with any larger amount.
\<close>

fun traverse_while :: "nat \<Rightarrow> heap \<Rightarrow> frame \<Rightarrow> run" where
  "traverse_while 0 h fr = (h, [], OutOfFuel)"
| "traverse_while (Suc k) h fr =
     (case view_graph h (f_G fr) of
        Inl e \<Rightarrow> (h, [], Raised e)
      | Inr gG \<Rightarrow>
          if g_edges gG = [] then (h, [], Finished)
          else (case frame_branches h fr of
                  Inl e \<Rightarrow> (h, [], Raised e)
                | Inr (branch # others, needs_preserving) \<Rightarrow>
                    (case enter_branch h fr branch of
                       Inl e \<Rightarrow> (h, [], Raised e)
                     | Inr sub \<Rightarrow>
                         (case traverse_while k h sub of
                            (h1, out1, Finished) \<Rightarrow>
                              (case leave_branch h1 (f_original fr) branch of
                                 (h2, Inl e) \<Rightarrow> (h2, out1, Raised e)
                               | (h2, Inr u) \<Rightarrow>
                                   (case traverse_while k h2 fr of
                                      (h3, out3, oc) \<Rightarrow> (h3, out1 @ out3, oc)))
                          | (h1, out1, oc) \<Rightarrow> (h1, out1, oc)))
                | Inr ([], needs_preserving) \<Rightarrow>
                    (case advance h fr gG of
                       (h1, out1, Inl e) \<Rightarrow> (h1, out1, Raised e)
                     | (h1, out1, Inr None) \<Rightarrow> (h1, out1, Finished)
                     | (h1, out1, Inr (Some fr')) \<Rightarrow>
                         (case traverse_while k h1 fr' of
                            (h3, out3, oc) \<Rightarrow> (h3, out1 @ out3, oc)))))"

text \<open>
  The entry. Without \<^verbatim>\<open>original_graph\<close> the graph passed in is copied into a new object,
  and \<^verbatim>\<open>G\<close> becomes a view of the copy; the recursive activations are entered with
  \<^verbatim>\<open>original_graph\<close> given (\<open>enter_branch\<close>).
\<close>

definition traverse_query_graph ::
  "nat \<Rightarrow> heap \<Rightarrow> graph_view \<Rightarrow> node \<Rightarrow> node \<Rightarrow> ref option \<Rightarrow> bool \<Rightarrow> run" where
  "traverse_query_graph k h G output node original_graph aggregating =
     (case original_graph of
        None \<Rightarrow>
          (case view_graph h G of
             Inl e \<Rightarrow> (h, [], Raised e)
           | Inr g \<Rightarrow>
               (case subgraph_view (h @ [copy g]) (Whole (length h)) no_args of
                  Inl e \<Rightarrow> (h @ [copy g], [], Raised e)
                | Inr G' \<Rightarrow>
                    (case enter (h @ [copy g]) G' output node (length h) aggregating of
                       Inl e \<Rightarrow> (h @ [copy g], [], Raised e)
                     | Inr fr \<Rightarrow> traverse_while k (h @ [copy g]) fr)))
      | Some original \<Rightarrow>
          (case enter h G output node original aggregating of
             Inl e \<Rightarrow> (h, [], Raised e)
           | Inr fr \<Rightarrow> traverse_while k h fr))"

section \<open>Properties of the compiler\<close>

subsection \<open>Which graph object is changed\<close>

text \<open>Two heaps that agree everywhere but at one object.\<close>

definition same_except :: "heap \<Rightarrow> heap \<Rightarrow> ref \<Rightarrow> bool" where
  "same_except h h' r = (length h' = length h \<and> (\<forall>r0. r0 \<noteq> r \<longrightarrow> h' ! r0 = h ! r0))"

lemma same_except_refl: "same_except h h r"
  by (simp add: same_except_def)

lemma same_except_update: "same_except h (h[r := g]) r"
  by (simp add: same_except_def)

lemma same_except_trans: "same_except h h1 r \<Longrightarrow> same_except h1 h2 r \<Longrightarrow> same_except h h2 r"
  by (simp add: same_except_def)

lemma save_if_needed_frame:
  assumes "save_if_needed h fr gG s = (h', r)"
  shows "same_except h h' (f_original fr) \<and> (\<forall>fr'. r = Inr fr' \<longrightarrow> f_original fr' = f_original fr)"
  using assms
  by (auto simp: save_if_needed_def Let_def same_except_refl same_except_update
           split: if_splits sum.splits bool.splits prod.splits)

lemma emit_and_consume_frame:
  assumes "emit_and_consume h fr gG s = (h', out, r)"
  shows "same_except h h' (f_original fr) \<and> (\<forall>fr'. r = Inr (Some fr') \<longrightarrow> f_original fr' = f_original fr)"
proof (cases "get_statement_data gG (f_node fr) s (f_aggregating fr)")
  case (Inl e)
  with assms show ?thesis by (auto simp: emit_and_consume_def same_except_refl)
next
  case (Inr stmt)
  obtain h1 r1 where sv: "save_if_needed h fr gG s = (h1, r1)" by force
  from save_if_needed_frame [OF sv] have fr1: "same_except h h1 (f_original fr)"
    and orig: "\<And>fr'. r1 = Inr fr' \<Longrightarrow> f_original fr' = f_original fr" by auto
  show ?thesis
    using assms Inr sv fr1 orig
    by (auto simp: emit_and_consume_def split: sum.splits intro: same_except_trans [OF fr1] same_except_update)
qed

lemma advance_frame:
  assumes "advance h fr gG = (h', out, r)"
  shows "same_except h h' (f_original fr) \<and> (\<forall>fr'. r = Inr (Some fr') \<longrightarrow> f_original fr' = f_original fr)"
  using assms emit_and_consume_frame
  by (auto simp: advance_def same_except_refl split: sum.splits if_splits list.splits)

lemma enter_original: "enter h G output node original aggregating = Inr fr \<Longrightarrow> f_original fr = original"
  by (auto simp: enter_def split: sum.splits)

lemma enter_branch_original: "enter_branch h fr branch = Inr sub \<Longrightarrow> f_original sub = f_original fr"
  by (auto simp: enter_branch_def Let_def split: sum.splits if_splits dest: enter_original)

lemma leave_branch_frame: "leave_branch h r branch = (h', res) \<Longrightarrow> same_except h h' r"
  by (auto simp: leave_branch_def same_except_refl same_except_update split: sum.splits)

lemma traverse_while_frame:
  "traverse_while k h fr = (h', out, oc) \<Longrightarrow> same_except h h' (f_original fr)"
proof (induction k arbitrary: h fr h' out oc)
  case 0
  then show ?case by (simp add: same_except_refl)
next
  case (Suc k)
  show ?case
  proof (cases "view_graph h (f_G fr)")
    case (Inl e)
    with Suc.prems show ?thesis by (simp add: same_except_refl)
  next
    case (Inr gG)
    note view = this
    show ?thesis
    proof (cases "g_edges gG = []")
      case True
      with Suc.prems view show ?thesis by (simp add: same_except_refl)
    next
      case False
      note edges = this
      show ?thesis
      proof (cases "frame_branches h fr")
        case (Inl e)
        with Suc.prems view edges show ?thesis by (simp add: same_except_refl)
      next
        case (Inr bs)
        obtain branches np where bs: "bs = (branches, np)" by (cases bs)
        show ?thesis
        proof (cases branches)
          case Nil
          obtain h1 out1 r1 where adv: "advance h fr gG = (h1, out1, r1)" by (metis prod_cases3)
          from advance_frame [OF adv] have f1: "same_except h h1 (f_original fr)"
            and o1: "\<And>fr'. r1 = Inr (Some fr') \<Longrightarrow> f_original fr' = f_original fr" by auto
          show ?thesis
          proof (cases r1)
            case (Inl e)
            with Suc.prems view edges Inr bs Nil adv f1 show ?thesis by simp
          next
            case (Inr x)
            note r1 = this
            show ?thesis
            proof (cases x)
              case None
              with Suc.prems view edges \<open>frame_branches h fr = Inr bs\<close> bs Nil adv f1 r1 show ?thesis by simp
            next
              case (Some fr')
              obtain h3 out3 oc3 where rec: "traverse_while k h1 fr' = (h3, out3, oc3)" by (metis prod_cases3)
              from Suc.IH [OF rec] o1 [of fr'] r1 Some have "same_except h1 h3 (f_original fr)" by simp
              with f1 have "same_except h h3 (f_original fr)" by (rule same_except_trans)
              with Suc.prems view edges \<open>frame_branches h fr = Inr bs\<close> bs Nil adv r1 Some rec show ?thesis by simp
            qed
          qed
        next
          case (Cons branch others)
          show ?thesis
          proof (cases "enter_branch h fr branch")
            case (Inl e)
            with Suc.prems view edges Inr bs Cons show ?thesis by (simp add: same_except_refl)
          next
            case (Inr sub)
            note sub = this
            obtain h1 out1 oc1 where rec1: "traverse_while k h sub = (h1, out1, oc1)" by (metis prod_cases3)
            from Suc.IH [OF rec1] enter_branch_original [OF sub]
            have f1: "same_except h h1 (f_original fr)" by simp
            show ?thesis
            proof (cases "oc1 = Finished")
              case False
              with Suc.prems view edges \<open>frame_branches h fr = Inr bs\<close> bs Cons sub rec1 f1 show ?thesis
                by (cases oc1) auto
            next
              case True
              obtain h2 res where lv: "leave_branch h1 (f_original fr) branch = (h2, res)" by force
              from leave_branch_frame [OF lv] f1 have f2: "same_except h h2 (f_original fr)"
                by (blast intro: same_except_trans)
              show ?thesis
              proof (cases res)
                case (Inl e)
                with Suc.prems view edges \<open>frame_branches h fr = Inr bs\<close> bs Cons sub rec1 True lv f2 show ?thesis by simp
              next
                case (Inr u)
                obtain h3 out3 oc3 where rec3: "traverse_while k h2 fr = (h3, out3, oc3)" by (metis prod_cases3)
                from Suc.IH [OF rec3] f2 have "same_except h h3 (f_original fr)" by (blast intro: same_except_trans)
                with Suc.prems view edges \<open>frame_branches h fr = Inr bs\<close> bs Cons sub rec1 True lv Inr rec3 show ?thesis by simp
              qed
            qed
          qed
        qed
      qed
    qed
  qed
qed

text \<open>
  C1, as stated, fails: a call without \<^verbatim>\<open>original_graph\<close> copies the graph it is given and
  consumes the copy. The count query compiles to three statements, for its two traversals
  and its aggregation; afterwards the caller's graph object (at address 0) is what it was,
  still holds the three edges, and compiles again to the same statements.
\<close>

theorem compile_consumes_a_copy_counterexample:
  "(case traverse_query_graph 20 [count_query] (Whole 0) count_node start_node None False of
      (h, out, oc) \<Rightarrow>
        oc = Finished \<and>
        map Inr out = [get_statement_data count_query start_node ob_node False,
                       get_statement_data count_query ob_node run_node True,
                       get_statement_data count_query run_node count_node True] \<and>
        h ! 0 = count_query \<and>
        has_edge (h ! 0) start_node ob_node \<and> has_edge (h ! 0) ob_node run_node \<and>
        has_edge (h ! 0) run_node count_node \<and>
        (case traverse_query_graph 20 h (Whole 0) count_node start_node None False of
           (h2, out2, oc2) \<Rightarrow> out2 = out \<and> oc2 = Finished))"
  by code_simp

text \<open>
  C1, amended: compilation is destructive on a copy. Whatever graph and nodes
  \<^verbatim>\<open>traverse_query_graph\<close> is called with (without \<^verbatim>\<open>original_graph\<close>), and however far it
  gets, every graph object that existed before the call, the caller's among them, is
  unchanged after it; the nodes and edges consumed are those of the copy the call made.
\<close>

theorem compile_leaves_caller_graph:
  "take (length h) (fst (traverse_query_graph k h G output node None aggregating)) = h"
proof -
  obtain h' out oc where run: "traverse_query_graph k h G output node None aggregating = (h', out, oc)"
    by (metis prod_cases3)
  have "length h \<le> length h' \<and> (\<forall>r < length h. h' ! r = h ! r)"
  proof (cases "view_graph h G")
    case (Inl e)
    with run show ?thesis by (simp add: traverse_query_graph_def)
  next
    case (Inr g)
    let ?h1 = "h @ [copy g]"
    show ?thesis
    proof (cases "subgraph_view ?h1 (Whole (length h)) no_args")
      case (Inl e)
      with run Inr show ?thesis by (auto simp: traverse_query_graph_def nth_append)
    next
      case G': (Inr G')
      show ?thesis
      proof (cases "enter ?h1 G' output node (length h) aggregating")
        case (Inl e)
        with run Inr G' show ?thesis by (auto simp: traverse_query_graph_def nth_append)
      next
        case fr: (Inr fr)
        with run Inr G' have "traverse_while k ?h1 fr = (h', out, oc)"
          by (simp add: traverse_query_graph_def)
        from traverse_while_frame [OF this] enter_original [OF fr]
        have "same_except ?h1 h' (length h)" by simp
        then show ?thesis by (auto simp: same_except_def nth_append)
      qed
    qed
  qed
  then have "take (length h) h' = h"
    by (intro nth_equalityI) auto
  with run show ?thesis by simp
qed

theorem compile_leaves_caller_graph_witness:
  "take 1 (fst (traverse_query_graph 20 [count_query] (Whole 0) count_node start_node None False))
     = [count_query]"
  using compile_leaves_caller_graph [of "[count_query]" 20 "Whole 0" count_node start_node False]
  by simp

subsection \<open>The fatal check\<close>

definition library_error :: "error \<Rightarrow> bool" where
  "library_error e = (e = KeyError \<or> e = NetworkXError \<or> e = NodeNotFound)"

lemma fatal_not_library_error: "\<not> library_error fatal"
  by (simp add: library_error_def fatal_def)

lemma view_graph_error: "view_graph h v = Inl e \<Longrightarrow> library_error e"
  by (induction v arbitrary: e)
     (auto simp: library_error_def Let_def split: sum.splits option.splits if_splits)

lemma subgraph_view_error: "subgraph_view h v args = Inl e \<Longrightarrow> library_error e"
  by (auto simp: subgraph_view_def split: if_splits sum.splits dest: view_graph_error)

lemma view_successors_error: "view_successors h v n = Inl e \<Longrightarrow> library_error e"
  by (auto simp: view_successors_def successors_def library_error_def
           split: sum.splits if_splits dest: view_graph_error)

lemma unaggregated_successors_error: "unaggregated_successors h fr = Inl e \<Longrightarrow> library_error e"
  by (auto simp: unaggregated_successors_def split: sum.splits
           dest: subgraph_view_error view_successors_error)

lemma get_statement_data_error: "get_statement_data g a b ag = Inl e \<Longrightarrow> library_error e"
  by (auto simp: get_statement_data_def node_dict_def edge_attrs_def library_error_def
           split: sum.splits option.splits)

lemma any_outside_error: "any_outside sg g n ns = Inl e \<Longrightarrow> library_error e"
  by (induction ns)
     (auto simp: edge_attrs_def library_error_def split: sum.splits option.splits if_splits)

lemma has_outside_dependencies_error: "has_outside_dependencies sg g n = Inl e \<Longrightarrow> library_error e"
  by (auto simp: has_outside_dependencies_def successors_def library_error_def
           split: sum.splits if_splits dest: any_outside_error)

lemma node_attrs_error: "node_attrs g n = Inl e \<Longrightarrow> library_error e"
  by (auto simp: node_attrs_def library_error_def split: option.splits)

lemma edge_attrs_error: "edge_attrs g a b = Inl e \<Longrightarrow> library_error e"
  by (auto simp: edge_attrs_def library_error_def split: option.splits)

lemma remove_edge_error: "remove_edge g a b = Inl e \<Longrightarrow> library_error e"
  by (auto simp: remove_edge_def library_error_def split: if_splits)

lemma add_aggregation_error: "add_aggregation g p w operation ty = Inl e \<Longrightarrow> library_error e"
  by (auto simp: add_aggregation_def split: sum.splits prod.splits dest: node_attrs_error)

lemma save_loop_error:
  "save_loop g wrt node aggregated label style ns = (g', Inl e) \<Longrightarrow> library_error e"
proof (induction ns arbitrary: g)
  case Nil
  then show ?case by simp
next
  case (Cons n ns)
  then show ?case
    by (auto split: if_splits sum.splits prod.splits
             dest: node_attrs_error edge_attrs_error remove_edge_error)
qed

lemma save_state_error: "save_state g wrt node = (g', Inl e) \<Longrightarrow> library_error e"
  by (auto simp: save_state_def Let_def split: sum.splits prod.splits
           dest: add_aggregation_error edge_attrs_error node_attrs_error save_loop_error)

lemma save_if_needed_error: "save_if_needed h fr gG s = (h', Inl e) \<Longrightarrow> library_error e"
  by (auto simp: save_if_needed_def Let_def split: if_splits sum.splits bool.splits prod.splits
           dest: has_outside_dependencies_error save_state_error subgraph_view_error)

lemma emit_and_consume_error: "emit_and_consume h fr gG s = (h', out, Inl e) \<Longrightarrow> library_error e"
  by (auto simp: emit_and_consume_def split: sum.splits prod.splits
           dest: get_statement_data_error save_if_needed_error remove_edge_error)

lemma emit_and_consume_emits:
  "emit_and_consume h fr gG s = (h', out, Inr r) \<Longrightarrow> out \<noteq> []"
  by (auto simp: emit_and_consume_def split: sum.splits prod.splits)

lemma advance_fatal:
  "(\<exists>h1 out1. advance h fr gG = (h1, out1, Inl fatal))
     \<longleftrightarrow> (\<exists>us. unaggregated_successors h fr = Inr us \<and> 1 < length us)"
proof
  assume "\<exists>h1 out1. advance h fr gG = (h1, out1, Inl fatal)"
  then obtain h1 out1 where adv: "advance h fr gG = (h1, out1, Inl fatal)" by blast
  show "\<exists>us. unaggregated_successors h fr = Inr us \<and> 1 < length us"
  proof (cases "unaggregated_successors h fr")
    case (Inl e)
    with adv have "e = fatal" by (simp add: advance_def)
    with unaggregated_successors_error [OF Inl] fatal_not_library_error show ?thesis by simp
  next
    case (Inr us)
    show ?thesis
    proof (cases "1 < length us")
      case True
      with Inr show ?thesis by simp
    next
      case False
      with adv Inr have "library_error fatal"
        by (auto simp: advance_def split: sum.splits list.splits
                 dest: view_successors_error emit_and_consume_error)
      with fatal_not_library_error show ?thesis by simp
    qed
  qed
next
  assume "\<exists>us. unaggregated_successors h fr = Inr us \<and> 1 < length us"
  then show "\<exists>h1 out1. advance h fr gG = (h1, out1, Inl fatal)"
    by (auto simp: advance_def)
qed

lemma advance_many: "unaggregated_successors h fr = Inr us \<Longrightarrow> 1 < length us \<Longrightarrow>
   advance h fr gG = (h, [], Inl fatal)"
  by (simp add: advance_def)

lemma advance_emits: "advance h fr gG = (h1, out1, Inr (Some fr')) \<Longrightarrow> out1 \<noteq> []"
  by (auto simp: advance_def split: sum.splits if_splits list.splits dest: emit_and_consume_emits)

text \<open>Two traversals from the start node: \<^verbatim>\<open>data.a\<close> and \<^verbatim>\<open>data.b\<close>.\<close>

abbreviation (input) a_node :: node where "a_node \<equiv> ''1\<newline>a\<newline>data->a''"
abbreviation (input) b_node :: node where "b_node \<equiv> ''2\<newline>b\<newline>data->b''"

definition fork_query :: graph where
  "fork_query = built_graph [AddTraversal [''a''] None, AddTraversal [''b''] None]"

definition fork_heap :: heap where
  "fork_heap = [fork_query, copy fork_query]"

definition fork_frame :: frame where
  "fork_frame =
     \<lparr>f_G = Restricted (Whole 1) [] [] None,
      f_dag = Restricted (Restricted (Whole 1) [] [] None) [] [] None,
      f_backwards = Restricted (Restricted (Whole 1) [] [] None) []
                      [(start_node, a_node), (start_node, b_node)] None,
      f_node = start_node, f_start = start_node, f_output = b_node,
      f_aggregating = False, f_original = 1\<rparr>"

lemma fork_frame_entered:
  "enter fork_heap (Restricted (Whole 1) [] [] None) b_node start_node 1 False = Inr fork_frame"
  by code_simp

text \<open>
  C6: in an iteration that finds edges in \<^verbatim>\<open>G\<close> and no branch at the current node, the
  run ends there with the fatal error, with nothing emitted and nothing changed, exactly
  when the current node has more than one successor in the dependency view without its
  load-state edges. With at most one, the iteration raises something else, returns, or
  emits a statement.
\<close>

theorem fatal_exactly_when_several_unaggregated:
  assumes view: "view_graph h (f_G fr) = Inr gG"
    and edges: "g_edges gG \<noteq> []"
    and branches: "frame_branches h fr = Inr ([], needs_preserving)"
  shows "traverse_while (Suc k) h fr = (h, [], Raised fatal)
           \<longleftrightarrow> (\<exists>us. unaggregated_successors h fr = Inr us \<and> 1 < length us)"
proof
  assume run: "traverse_while (Suc k) h fr = (h, [], Raised fatal)"
  obtain h1 out1 r1 where adv: "advance h fr gG = (h1, out1, r1)" by (metis prod_cases3)
  have "r1 = Inl fatal"
  proof (cases r1)
    case (Inl e)
    with run view edges branches adv show ?thesis by simp
  next
    case (Inr x)
    show ?thesis
    proof (cases x)
      case None
      with run view edges branches adv Inr show ?thesis by simp
    next
      case (Some fr')
      obtain h3 out3 oc3 where "traverse_while k h1 fr' = (h3, out3, oc3)" by (metis prod_cases3)
      with run view edges branches adv Inr Some have "out1 @ out3 = []" by simp
      with advance_emits adv Inr Some show ?thesis by auto
    qed
  qed
  with adv advance_fatal [of h fr gG] show "\<exists>us. unaggregated_successors h fr = Inr us \<and> 1 < length us"
    by blast
next
  assume "\<exists>us. unaggregated_successors h fr = Inr us \<and> 1 < length us"
  then obtain us where "unaggregated_successors h fr = Inr us" "1 < length us" by blast
  then have "advance h fr gG = (h, [], Inl fatal)" by (rule advance_many)
  with view edges branches show "traverse_while (Suc k) h fr = (h, [], Raised fatal)" by simp
qed

theorem fatal_exactly_when_several_unaggregated_witness:
  "unaggregated_successors fork_heap fork_frame = Inr [a_node, b_node] \<and>
   traverse_while 1 fork_heap fork_frame = (fork_heap, [], Raised fatal)"
proof -
  have view: "view_graph fork_heap (f_G fork_frame) = Inr (copy fork_query)"
    by code_simp
  have edges: "g_edges (copy fork_query) \<noteq> []"
    by code_simp
  have branches: "frame_branches fork_heap fork_frame = Inr ([], True)"
    by code_simp
  have un: "unaggregated_successors fork_heap fork_frame = Inr [a_node, b_node]"
    by code_simp
  from fatal_exactly_when_several_unaggregated [OF view edges branches, of 0] un
  show ?thesis by simp
qed

subsection \<open>The order of the successors\<close>




text \<open>
  An aggregation scoped to the start node, with a filter that depends on it:
  \<^verbatim>\<open>c = count(data.OB, wrt=data); data[c]\<close>. The aggregation node has a scope edge to the start
  node and a dependency edge to the filter.
\<close>

abbreviation (input) scoped_count_node :: node where "scoped_count_node \<equiv> ''2\<newline>count\<newline>data''"
abbreviation (input) start_filter_node :: node where "start_filter_node \<equiv> ''3\<newline>data\<newline>data''"

definition scope_query :: graph where
  "scope_query = built_graph
     [AddTraversal [''OB''] None, AddAggregation 1 0 ''count'', AddFilter 0 [2] ''f'']"

definition scope_heap :: heap where
  "scope_heap = [scope_query, copy scope_query]"

definition scope_frame :: frame where
  "scope_frame =
     \<lparr>f_G = Restricted (Whole 1) [] [] None,
      f_dag = Restricted (Restricted (Whole 1) [] [] None) []
                [(scoped_count_node, start_node)] None,
      f_backwards = Restricted (Restricted (Whole 1) [] [] None) []
                      [(start_node, ob_node), (start_node, start_filter_node),
                       (ob_node, scoped_count_node), (scoped_count_node, start_filter_node)] None,
      f_node = scoped_count_node, f_start = scoped_count_node, f_output = start_filter_node,
      f_aggregating = False, f_original = 1\<rparr>"

lemma scope_frame_entered:
  "enter scope_heap (Restricted (Whole 1) [] [] None) start_filter_node scoped_count_node 1 False
     = Inr scope_frame"
  by code_simp



subsection \<open>Node identities\<close>

text \<open>
  Two aggregations scoped to the start node, the second over a node that is traversed
  further: \<^verbatim>\<open>count(data.x, wrt=data); any(data.t, wrt=data); data.t.z\<close>. The builder numbers the
  six nodes 0 to 5.
\<close>

abbreviation (input) z_node :: node where "z_node \<equiv> ''5\<newline>z\<newline>data->t->z''"

definition reuse_query :: graph where
  "reuse_query = built_graph
     [AddTraversal [''x''] None, AddAggregation 1 0 ''count'',
      AddTraversal [''t''] None, AddAggregation 3 0 ''any'', AddTraversal [''z''] (Some 3)]"

text \<open>
  C8: \<^verbatim>\<open>make_node\<close> numbers a node by the number of nodes the graph has. Compiling the
  query above resolves the first aggregation and removes its node, which leaves five
  nodes; the second branch then saves the state of the \<open>t\<close> node, and the save-state node
  it creates gets the number 5, which the \<open>z\<close> node already has. The compiled graph ends
  with two nodes numbered 5.
\<close>

theorem identity_reused_after_removal:
  "map (\<lambda>(k, a). (k, map_option n_i a)) (g_nodes reuse_query)
     = [(start_node, Some 0), (''1\<newline>x\<newline>data->x'', Some 1), (''2\<newline>count\<newline>data'', Some 2),
        (''3\<newline>t\<newline>data->t'', Some 3), (''4\<newline>any\<newline>data'', Some 4), (z_node, Some 5)] \<and>
   (case traverse_query_graph 20 [reuse_query] (Whole 0) z_node start_node None False of
      (h, out, oc) \<Rightarrow>
        oc = Finished \<and>
        map (\<lambda>(k, a). (k, map_option n_i a)) (g_nodes (h ! 1))
          = [(start_node, Some 0), (''1\<newline>x\<newline>data->x'', Some 1), (''3\<newline>t\<newline>data->t'', Some 3),
             (z_node, Some 5), (''5\<newline>save-state\<newline>data'', Some 5),
             (''6\<newline>load-state t\<newline>data->t'', Some 6), (''7\<newline>load-state t\<newline>data->t'', Some 7)])"
  by code_simp

section \<open>Properties of the builder\<close>

subsection \<open>Labels are numbered\<close>










subsection \<open>What every graph of the builder satisfies\<close>

text \<open>The dependency graph: the edges of every type but \<^verbatim>\<open>wrt\<close>, as a relation.\<close>

definition dependency_edges :: "graph \<Rightarrow> (node \<times> node) set" where
  "dependency_edges g = {(a, b). \<exists>d. ((a, b), d) \<in> set (g_edges g) \<and> get_type d \<noteq> ''wrt''}"


















lemma get_type_update_wrt:
  "e_type a = Some ''wrt'' \<Longrightarrow> get_type (update_attrs d a) = ''wrt''"
  by (simp add: get_type_def update_attrs_def overlay_def)

lemma get_type_wrt: "e_type a = Some ''wrt'' \<Longrightarrow> get_type a = ''wrt''"
  by (simp add: get_type_def)

lemma add_edge_scope:
  assumes "has_node g u" and "has_node g v" and "e_type a = Some ''wrt''"
  shows "dependency_edges (add_edge g u v a) \<subseteq> dependency_edges g"
  using assms
  by (auto simp: add_edge_def touch_node_def Let_def dependency_edges_def get_type_update_wrt
                 get_type_wrt split: if_splits)





















section \<open>Properties of state preservation\<close>










subsection \<open>The loop over the outgoing edges\<close>



subsection \<open>The loop over the incoming scope edges\<close>


subsection \<open>The graph before the loops\<close>










subsection \<open>The whole call\<close>





end
